theory Spec2Isabelle
  imports Main "HOL-Library.Word"
begin

section \<open>The NFC door controller (NFC\_Door.ino)\<close>

text \<open>
  A shallow embedding of the sketch \<^verbatim>\<open>NFC_Door.ino\<close>. The globals of the sketch are
  the fields of one record that every function takes and returns. The EEPROM is the
  byte memory of the device together with a counter of physical writes per address,
  so that the wear of a cell can be observed.

  Conventions:
  \<^item> \<^verbatim>\<open>uint8_t\<close> is \<open>8 word\<close>. The sketch's \<^verbatim>\<open>int\<close> loop counters and addresses
    are natural numbers: they start at 0 or 1, only grow, and stay below
    \<open>255 * 7 + 8\<close>, far from the 16-bit limit.
  \<^item> A C array is a function from the index to the byte. The sketch indexes its
    7-byte buffers with \<open>0..6\<close> only, with one exception: the wipe loop reads
    \<^verbatim>\<open>_nullUIDEntry[i]\<close> for \<open>i\<close> up to 1023. What lies behind the array is not
    determined by the sketch, so it is a field of the state (\<open>ramPastNullUID\<close>).
  \<^item> EEPROM addresses are natural numbers and the memory is a total function; the
    device has 1024 cells. Reads at higher addresses (a header above 146) are taken
    from the same function.
  \<^item> \<^verbatim>\<open>Serial.println\<close> appends a line to \<open>serial\<close>; \<^verbatim>\<open>setLEDMode\<close> records the colour
    mode; \<^verbatim>\<open>unlockDoor\<close> counts the unlock-and-relock cycles. The \<^verbatim>\<open>Serial.print\<close> of the
    card number, the pin levels and every \<^verbatim>\<open>delay\<close> are left out.
\<close>

type_synonym u8 = "8 word"

subsection \<open>The EEPROM\<close>

record eeprom =
  cells :: "nat \<Rightarrow> u8"
  wear :: "nat \<Rightarrow> nat"

definition EEPROM_read :: "eeprom \<Rightarrow> nat \<Rightarrow> u8" where
  "EEPROM_read e a = cells e a"

definition EEPROM_write :: "nat \<Rightarrow> u8 \<Rightarrow> eeprom \<Rightarrow> eeprom" where
  "EEPROM_write a v e = e\<lparr>cells := (cells e)(a := v), wear := (wear e)(a := Suc (wear e a))\<rparr>"

text \<open>\<^verbatim>\<open>eepromSafeWrite\<close>: write only when the stored byte differs.\<close>

definition eepromSafeWrite :: "nat \<Rightarrow> u8 \<Rightarrow> eeprom \<Rightarrow> eeprom" where
  "eepromSafeWrite pAddress pWriteByte e =
     (if EEPROM_read e pAddress \<noteq> pWriteByte then EEPROM_write pAddress pWriteByte e else e)"

subsection \<open>Globals\<close>

record machine =
  scannedUIDBuffer :: "nat \<Rightarrow> u8"
  uidLength :: nat
  entryCount :: u8
  readUIDBuffer :: "nat \<Rightarrow> u8"
  adminMode :: bool
  EEPROM :: eeprom
  ramPastNullUID :: "nat \<Rightarrow> u8"
  serial :: "string list"
  led :: nat
  doorUnlocks :: nat

definition masterUID :: "u8 list" where
  "masterUID = [240, 200, 160, 120, 80, 40, 0]"

definition masterUIDEntry :: "nat \<Rightarrow> u8" where
  "masterUIDEntry i = masterUID ! i"

definition nullUID :: "u8 list" where
  "nullUID = [255, 255, 255, 255, 255, 255, 255]"

text \<open>\<^verbatim>\<open>_nullUIDEntry[i]\<close>: the array inside its bounds, whatever the memory holds behind it.\<close>

definition nullUIDEntry :: "machine \<Rightarrow> nat \<Rightarrow> u8" where
  "nullUIDEntry s i = (if i < 7 then nullUID ! i else ramPastNullUID s i)"

definition println :: "string \<Rightarrow> machine \<Rightarrow> machine" where
  "println msg s = s\<lparr>serial := serial s @ [msg]\<rparr>"

definition setLEDMode :: "nat \<Rightarrow> machine \<Rightarrow> machine" where
  "setLEDMode pColourMode s = s\<lparr>led := pColourMode\<rparr>"

definition unlockDoor :: "machine \<Rightarrow> machine" where
  "unlockDoor s = setLEDMode 1 ((setLEDMode 3 s)\<lparr>doorUnlocks := Suc (doorUnlocks s)\<rparr>)"

subsection \<open>Comparing and copying identifiers\<close>

text \<open>\<^verbatim>\<open>checkUIDsMatch\<close>: the loop runs over all 7 bytes and clears the flag at a difference.\<close>

definition checkUIDsMatch :: "(nat \<Rightarrow> u8) \<Rightarrow> (nat \<Rightarrow> u8) \<Rightarrow> bool" where
  "checkUIDsMatch pUIDArrayPointer1 pUIDArrayPointer2 =
     fold (\<lambda>i uidMatches. if pUIDArrayPointer1 i \<noteq> pUIDArrayPointer2 i then False else uidMatches)
       [0..<7] True"

text \<open>The loop that reads the entry at \<open>currentReadAddress\<close> into \<^verbatim>\<open>_readUIDBuffer\<close>.\<close>

definition readEntry :: "nat \<Rightarrow> machine \<Rightarrow> machine" where
  "readEntry currentReadAddress s =
     s\<lparr>readUIDBuffer :=
         fold (\<lambda>i buf. buf(i := EEPROM_read (EEPROM s) (currentReadAddress + i))) [0..<7]
           (readUIDBuffer s)\<rparr>"

text \<open>The loop that writes \<^verbatim>\<open>_scannedUIDBuffer\<close> to the 7 cells from \<open>base + 1\<close> on,
  where \<open>base\<close> is \<^verbatim>\<open>currentEntry * 7\<close> or \<^verbatim>\<open>_entryCount * 7\<close>.\<close>

definition writeScanned :: "nat \<Rightarrow> machine \<Rightarrow> machine" where
  "writeScanned base s =
     s\<lparr>EEPROM := fold (\<lambda>i e. eepromSafeWrite (base + 1 + i) (scannedUIDBuffer s i) e) [0..<7]
         (EEPROM s)\<rparr>"

text \<open>The removal loop of \<^verbatim>\<open>loop\<close>: \<^verbatim>\<open>_nullUIDEntry[0]\<close> into the 7 cells of the entry.\<close>

definition nullEntry :: "nat \<Rightarrow> machine \<Rightarrow> machine" where
  "nullEntry currentReadAddress s =
     s\<lparr>EEPROM := fold (\<lambda>currentWriteAddress e. eepromSafeWrite currentWriteAddress (nullUIDEntry s 0) e)
         [currentReadAddress..<currentReadAddress + 7] (EEPROM s)\<rparr>"

text \<open>The wipe of \<^verbatim>\<open>loop\<close>: 0 into the header, then \<^verbatim>\<open>_nullUIDEntry[i]\<close> into cell \<open>i\<close> for
  \<open>i\<close> from 1 to 1023.\<close>

definition clearDatabase :: "machine \<Rightarrow> machine" where
  "clearDatabase s =
     s\<lparr>EEPROM := fold (\<lambda>i e. eepromSafeWrite i (nullUIDEntry s i) e) [1..<1024]
         (eepromSafeWrite 0 0 (EEPROM s))\<rparr>"

subsection \<open>Saving a card: \<^verbatim>\<open>eepromWriteScannedUIDBuffer\<close>\<close>

text \<open>The scan for a nulled entry. \<open>currentEntry\<close> runs from 1 to \<^verbatim>\<open>_entryCount\<close>; the
  entry is read at \<open>currentReadAddress\<close> and, when nulled, the card is written at
  \<^verbatim>\<open>(currentEntry * 7) + 1 + i\<close>. The result says whether an entry was recycled.\<close>

function recycleScan :: "nat \<Rightarrow> nat \<Rightarrow> machine \<Rightarrow> bool \<times> machine" where
  "recycleScan currentEntry currentReadAddress s =
     (if currentEntry \<le> unat (entryCount s) then
        (let s1 = readEntry currentReadAddress s in
         if checkUIDsMatch (readUIDBuffer s1) (nullUIDEntry s1) then
           (True, setLEDMode 6 (println ''Not found in database. Card saved!''
                    (writeScanned (currentEntry * 7) s1)))
         else recycleScan (Suc currentEntry) (currentReadAddress + 7) s1)
      else (False, s))"
  by pat_completeness auto

termination
  by (relation "measure (\<lambda>(currentEntry, currentReadAddress, s). Suc (unat (entryCount s)) - currentEntry)")
     (auto simp: readEntry_def)

definition eepromWriteScannedUIDBuffer :: "machine \<Rightarrow> machine" where
  "eepromWriteScannedUIDBuffer s =
     (let (recycledEntry, s1) = (if entryCount s > 0 then recycleScan 1 1 s else (False, s));
          s2 = (if \<not> recycledEntry then
                  (if entryCount s1 < 145 then
                     setLEDMode 6 (println ''Not found in database. Card saved!''
                       ((writeScanned (unat (entryCount s1) * 7) s1)
                          \<lparr>EEPROM := EEPROM_write 0 (entryCount s1 + 1)
                             (EEPROM (writeScanned (unat (entryCount s1) * 7) s1))\<rparr>))
                   else if entryCount s1 \<ge> 145 then
                     setLEDMode 1 (println ''Out of space! All entries currently in use.'' s1)
                   else s1)
                else s1)
      in s2\<lparr>adminMode := False\<rparr>)"

subsection \<open>The main loop\<close>

text \<open>The search of the database for the scanned card. \<open>currentEntry\<close> runs from 0 below
  \<^verbatim>\<open>_entryCount\<close>. At a match the door is unlocked (normal mode) or the entry is nulled
  (admin mode) and the loop is left. The result is \<^verbatim>\<open>entryFound\<close>.\<close>

function findEntry :: "nat \<Rightarrow> nat \<Rightarrow> machine \<Rightarrow> bool \<times> machine" where
  "findEntry currentEntry currentReadAddress s =
     (if currentEntry < unat (entryCount s) then
        (let s1 = readEntry currentReadAddress s in
         if checkUIDsMatch (scannedUIDBuffer s1) (readUIDBuffer s1) then
           (True,
            if \<not> adminMode s1 then
              unlockDoor (println ''Found in database. Unlocking door.'' s1)
            else
              (setLEDMode 5 (println ''Found in database. Removed entry.''
                 (nullEntry currentReadAddress s1)))\<lparr>adminMode := False\<rparr>)
         else findEntry (Suc currentEntry) (currentReadAddress + 7) s1)
      else (False, s))"
  by pat_completeness auto

termination
  by (relation "measure (\<lambda>(currentEntry, currentReadAddress, s). unat (entryCount s) - currentEntry)")
     (auto simp: readEntry_def)

text \<open>The branch of \<^verbatim>\<open>loop\<close> for the master card.\<close>

definition masterDetected :: "machine \<Rightarrow> machine" where
  "masterDetected s =
     (if \<not> adminMode s then
        setLEDMode 0 ((println ''Master detected. Entering admin mode.'' s)\<lparr>adminMode := True\<rparr>)
      else
        (clearDatabase
           (setLEDMode 7
              (println ''Master detected. Admin mode already enabled, clearing database.'' s)))
        \<lparr>adminMode := False\<rparr>)"

text \<open>The branch of \<^verbatim>\<open>loop\<close> for any other card.\<close>

definition cardDetected :: "machine \<Rightarrow> machine" where
  "cardDetected s0 =
     (let s = s0\<lparr>entryCount := EEPROM_read (EEPROM s0) 0\<rparr> in
      if entryCount s > 0 then
        (let (entryFound, s1) = findEntry 0 1 s in
         if \<not> entryFound then
           (if \<not> adminMode s1 then
              setLEDMode 1 (println ''Not found in database. Access denied!'' s1)
            else eepromWriteScannedUIDBuffer s1)
         else s1)
      else
        (if \<not> adminMode s then
           setLEDMode 1 (println ''Database empty. Access denied!'' s)
         else eepromWriteScannedUIDBuffer s))"

text \<open>The card reader is a library outside the sketch. A successful
  \<^verbatim>\<open>readPassiveTargetID\<close> stores the bytes of the identifier (4 or 7 of them) at the start
  of the buffer it is given and their number in \<^verbatim>\<open>_uidLength\<close>; the rest of the buffer
  is not touched. The sketch itself never reads \<^verbatim>\<open>_uidLength\<close> and never clears the
  buffer after \<^verbatim>\<open>setup()\<close>.\<close>

definition readPassiveTargetID :: "u8 list \<Rightarrow> machine \<Rightarrow> machine" where
  "readPassiveTargetID uid s =
     s\<lparr>scannedUIDBuffer := fold (\<lambda>i buf. buf(i := uid ! i)) [0..<length uid] (scannedUIDBuffer s),
       uidLength := length uid\<rparr>"

text \<open>One pass of \<^verbatim>\<open>loop\<close>. The argument is what the reader reports: \<open>None\<close> when no card
  was read, \<open>Some uid\<close> for a card with identifier \<open>uid\<close>.\<close>

definition loop :: "u8 list option \<Rightarrow> machine \<Rightarrow> machine" where
  "loop scan s0 =
     (let s = (if \<not> adminMode s0 then setLEDMode 2 s0 else setLEDMode 4 s0) in
      case scan of
        None \<Rightarrow> s
      | Some uid \<Rightarrow>
          (let s' = readPassiveTargetID uid s in
           if checkUIDsMatch (scannedUIDBuffer s') masterUIDEntry then masterDetected s'
           else cardDetected s'))"

text \<open>The state after \<^verbatim>\<open>setup()\<close>, when the reader board was found (otherwise the
  sketch halts there and \<^verbatim>\<open>loop\<close> never runs): both buffers are zeroed, the other
  globals have their initialisers. The arguments are what the sketch does not set: the
  EEPROM and the memory behind \<^verbatim>\<open>_nullUIDEntry\<close>.\<close>

definition initial :: "eeprom \<Rightarrow> (nat \<Rightarrow> u8) \<Rightarrow> machine" where
  "initial e ram =
     \<lparr>scannedUIDBuffer = fold (\<lambda>i buf. buf(i := 0)) [0..<7] (\<lambda>_. 0),
      uidLength = 0, entryCount = 0,
      readUIDBuffer = fold (\<lambda>i buf. buf(i := 0)) [0..<7] (\<lambda>_. 0),
      adminMode = False, EEPROM = e, ramPastNullUID = ram,
      serial = [], led = 0, doorUnlocks = 0\<rparr>"

text \<open>A sequence of passes of \<^verbatim>\<open>loop\<close>, one per report of the reader.\<close>

definition run :: "u8 list option list \<Rightarrow> machine \<Rightarrow> machine" where
  "run scans s = fold loop scans s"

subsection \<open>Observations used in the statements\<close>

text \<open>Between two states of the EEPROM, every cell whose content is the same has the
  same number of physical writes, and every cell whose content differs has exactly one
  more.\<close>

definition thrifty :: "eeprom \<Rightarrow> eeprom \<Rightarrow> bool" where
  "thrifty e e' = (\<forall>b. wear e' b = wear e b + (if cells e' b = cells e b then 0 else 1))"

text \<open>A card that can be enrolled: 7 bytes, neither the master card nor the null entry.\<close>

definition enrollable :: "u8 list \<Rightarrow> bool" where
  "enrollable uid \<longleftrightarrow> length uid = 7 \<and> uid \<noteq> masterUID \<and> uid \<noteq> nullUID"

text \<open>What the reader reports when the operator enrols the cards \<open>ids\<close> in turn: the
  master card, then the card.\<close>

definition enrol :: "u8 list list \<Rightarrow> u8 list option list" where
  "enrol ids = concat (map (\<lambda>uid. [Some masterUID, Some uid]) ids)"

text \<open>The database consists of the entries \<open>ids\<close>, in this order: the header is their
  number and entry \<open>j\<close> (from 0) lies in the 7 cells from \<open>1 + 7 * j\<close>.\<close>

definition holds :: "eeprom \<Rightarrow> u8 list list \<Rightarrow> bool" where
  "holds e ids \<longleftrightarrow>
     EEPROM_read e 0 = of_nat (length ids) \<and>
     (\<forall>j<length ids. \<forall>i<7. EEPROM_read e (1 + 7 * j + i) = ids ! j ! i)"

text \<open>\<open>k\<close> cards that differ in their first byte.\<close>

definition sampleCards :: "nat \<Rightarrow> u8 list list" where
  "sampleCards k = map (\<lambda>n. [of_nat n, 0, 0, 0, 0, 0, 0]) [0..<k]"

text \<open>An EEPROM holding \<open>header\<close> in cell 0 and \<open>fill\<close> in every other cell, never
  written.\<close>

definition filledEEPROM :: "u8 \<Rightarrow> u8 \<Rightarrow> eeprom" where
  "filledEEPROM header fill = \<lparr>cells = (\<lambda>a. if a = 0 then header else fill), wear = (\<lambda>_. 0)\<rparr>"

section \<open>Properties of the embedding\<close>

declare findEntry.simps [simp del] recycleScan.simps [simp del]

subsection \<open>Buffers and cells\<close>

lemma nullUID_nth: "i < 7 \<Longrightarrow> nullUID ! i = 255"
  by (auto simp: nullUID_def less_Suc_eq eval_nat_numeral)

lemma nullUIDEntry_inside: "i < 7 \<Longrightarrow> nullUIDEntry s i = 255"
  by (simp add: nullUIDEntry_def nullUID_nth)

lemma checkUIDsMatch_iff: "checkUIDsMatch p q \<longleftrightarrow> (\<forall>i<7. p i = q i)"
  by (simp add: checkUIDsMatch_def eval_nat_numeral All_less_Suc)

lemma fold_fun_upd_upt:
  "fold (\<lambda>i buf. buf(i := f i)) [0..<n] b = (\<lambda>i. if i < n then f i else b i)"
  by (induction n) (auto simp: fun_eq_iff)

lemma readUIDBuffer_readEntry:
  "readUIDBuffer (readEntry a s) = (\<lambda>i. if i < 7 then cells (EEPROM s) (a + i) else readUIDBuffer s i)"
  by (simp add: readEntry_def fold_fun_upd_upt EEPROM_read_def)

lemma cells_safeWrites:
  "distinct as \<Longrightarrow>
   cells (fold (\<lambda>a e. eepromSafeWrite a (f a) e) as e) b = (if b \<in> set as then f b else cells e b)"
  by (induction as arbitrary: e) (auto simp: eepromSafeWrite_def EEPROM_read_def EEPROM_write_def)

lemma wear_safeWrites:
  "distinct as \<Longrightarrow>
   wear (fold (\<lambda>a e. eepromSafeWrite a (f a) e) as e) b =
     wear e b + (if b \<in> set as \<and> cells e b \<noteq> f b then 1 else 0)"
  by (induction as arbitrary: e) (auto simp: eepromSafeWrite_def EEPROM_read_def EEPROM_write_def)

lemma fold_shift:
  "fold (\<lambda>i e. eepromSafeWrite (base + i) (buf i) e) [0..<n] e =
   fold (\<lambda>a e. eepromSafeWrite a (buf (a - base)) e) [base..<base + n] e"
proof -
  have "fold (\<lambda>a e. eepromSafeWrite a (buf (a - base)) e) (map (\<lambda>i. base + i) [0..<n]) e =
        fold ((\<lambda>a e. eepromSafeWrite a (buf (a - base)) e) \<circ> (\<lambda>i. base + i)) [0..<n] e"
    by (simp only: fold_map)
  also have "map (\<lambda>i. base + i) [0..<n] = [base..<base + n]"
    by (induction n) simp_all
  finally show ?thesis by (simp add: comp_def)
qed

lemma thrifty_refl: "thrifty e e"
  by (simp add: thrifty_def)

lemma thrifty_safeWrites:
  "distinct as \<Longrightarrow> thrifty e (fold (\<lambda>a e. eepromSafeWrite a (f a) e) as e)"
  by (simp add: thrifty_def cells_safeWrites wear_safeWrites)

lemma readEntry_shape: "readEntry a s = s\<lparr>readUIDBuffer := readUIDBuffer (readEntry a s)\<rparr>"
  by (simp add: readEntry_def)

lemma readEntry_fields [simp]:
  "scannedUIDBuffer (readEntry a s) = scannedUIDBuffer s"
  "entryCount (readEntry a s) = entryCount s"
  "adminMode (readEntry a s) = adminMode s"
  "EEPROM (readEntry a s) = EEPROM s"
  "ramPastNullUID (readEntry a s) = ramPastNullUID s"
  "serial (readEntry a s) = serial s"
  "led (readEntry a s) = led s"
  "doorUnlocks (readEntry a s) = doorUnlocks s"
  "uidLength (readEntry a s) = uidLength s"
  by (simp_all add: readEntry_def)

lemma EEPROM_writeScanned:
  "EEPROM (writeScanned base s) =
     fold (\<lambda>a e. eepromSafeWrite a (scannedUIDBuffer s (a - (base + 1))) e) [base + 1..<base + 1 + 7] (EEPROM s)"
  by (simp only: writeScanned_def fold_shift [symmetric]) simp

lemma cells_writeScanned:
  "cells (EEPROM (writeScanned base s)) b =
     (if base + 1 \<le> b \<and> b < base + 8 then scannedUIDBuffer s (b - (base + 1)) else cells (EEPROM s) b)"
  by (simp add: EEPROM_writeScanned cells_safeWrites)

lemma thrifty_writeScanned: "thrifty (EEPROM s) (EEPROM (writeScanned base s))"
  by (simp only: EEPROM_writeScanned) (rule thrifty_safeWrites, simp)

lemma wear_writeScanned_0: "wear (EEPROM (writeScanned base s)) 0 = wear (EEPROM s) 0"
  by (simp add: EEPROM_writeScanned wear_safeWrites)

lemma writeScanned_fields [simp]:
  "scannedUIDBuffer (writeScanned a s) = scannedUIDBuffer s"
  "entryCount (writeScanned a s) = entryCount s"
  "adminMode (writeScanned a s) = adminMode s"
  "readUIDBuffer (writeScanned a s) = readUIDBuffer s"
  "ramPastNullUID (writeScanned a s) = ramPastNullUID s"
  "serial (writeScanned a s) = serial s"
  "led (writeScanned a s) = led s"
  "doorUnlocks (writeScanned a s) = doorUnlocks s"
  "uidLength (writeScanned a s) = uidLength s"
  by (simp_all add: writeScanned_def)

lemma cells_nullEntry:
  "cells (EEPROM (nullEntry a s)) b = (if a \<le> b \<and> b < a + 7 then 255 else cells (EEPROM s) b)"
  by (simp add: nullEntry_def cells_safeWrites nullUIDEntry_inside)

lemma thrifty_nullEntry: "thrifty (EEPROM s) (EEPROM (nullEntry a s))"
  by (simp add: nullEntry_def thrifty_safeWrites)

lemma nullEntry_fields [simp]:
  "scannedUIDBuffer (nullEntry a s) = scannedUIDBuffer s"
  "entryCount (nullEntry a s) = entryCount s"
  "adminMode (nullEntry a s) = adminMode s"
  "readUIDBuffer (nullEntry a s) = readUIDBuffer s"
  "ramPastNullUID (nullEntry a s) = ramPastNullUID s"
  "serial (nullEntry a s) = serial s"
  "led (nullEntry a s) = led s"
  "doorUnlocks (nullEntry a s) = doorUnlocks s"
  "uidLength (nullEntry a s) = uidLength s"
  by (simp_all add: nullEntry_def)

lemma EEPROM_clearDatabase:
  "EEPROM (clearDatabase s) =
     fold (\<lambda>a e. eepromSafeWrite a (if a = 0 then 0 else nullUIDEntry s a) e) (0 # [1..<1024]) (EEPROM s)"
proof -
  have "fold (\<lambda>a e. eepromSafeWrite a (if a = 0 then 0 else nullUIDEntry s a) e) [1..<1024] e0 =
        fold (\<lambda>i e. eepromSafeWrite i (nullUIDEntry s i) e) [1..<1024] e0" for e0
    by (rule fold_cong) auto
  then show ?thesis by (simp add: clearDatabase_def)
qed

lemma cells_clearDatabase:
  "cells (EEPROM (clearDatabase s)) b =
     (if b = 0 then 0 else if b < 1024 then nullUIDEntry s b else cells (EEPROM s) b)"
  by (simp only: EEPROM_clearDatabase) (subst cells_safeWrites, auto)

lemma thrifty_clearDatabase: "thrifty (EEPROM s) (EEPROM (clearDatabase s))"
  by (simp only: EEPROM_clearDatabase) (rule thrifty_safeWrites, simp)

lemma clearDatabase_fields [simp]:
  "scannedUIDBuffer (clearDatabase s) = scannedUIDBuffer s"
  "entryCount (clearDatabase s) = entryCount s"
  "adminMode (clearDatabase s) = adminMode s"
  "readUIDBuffer (clearDatabase s) = readUIDBuffer s"
  "ramPastNullUID (clearDatabase s) = ramPastNullUID s"
  "serial (clearDatabase s) = serial s"
  "led (clearDatabase s) = led s"
  "doorUnlocks (clearDatabase s) = doorUnlocks s"
  "uidLength (clearDatabase s) = uidLength s"
  by (simp_all add: clearDatabase_def)

lemma println_fields [simp]:
  "scannedUIDBuffer (println m s) = scannedUIDBuffer s"
  "entryCount (println m s) = entryCount s"
  "adminMode (println m s) = adminMode s"
  "readUIDBuffer (println m s) = readUIDBuffer s"
  "EEPROM (println m s) = EEPROM s"
  "ramPastNullUID (println m s) = ramPastNullUID s"
  "serial (println m s) = serial s @ [m]"
  "led (println m s) = led s"
  "doorUnlocks (println m s) = doorUnlocks s"
  "uidLength (println m s) = uidLength s"
  by (simp_all add: println_def)

lemma setLEDMode_fields [simp]:
  "scannedUIDBuffer (setLEDMode m s) = scannedUIDBuffer s"
  "entryCount (setLEDMode m s) = entryCount s"
  "adminMode (setLEDMode m s) = adminMode s"
  "readUIDBuffer (setLEDMode m s) = readUIDBuffer s"
  "EEPROM (setLEDMode m s) = EEPROM s"
  "ramPastNullUID (setLEDMode m s) = ramPastNullUID s"
  "serial (setLEDMode m s) = serial s"
  "led (setLEDMode m s) = m"
  "doorUnlocks (setLEDMode m s) = doorUnlocks s"
  "uidLength (setLEDMode m s) = uidLength s"
  by (simp_all add: setLEDMode_def)

lemma unlockDoor_fields [simp]:
  "scannedUIDBuffer (unlockDoor s) = scannedUIDBuffer s"
  "entryCount (unlockDoor s) = entryCount s"
  "adminMode (unlockDoor s) = adminMode s"
  "readUIDBuffer (unlockDoor s) = readUIDBuffer s"
  "EEPROM (unlockDoor s) = EEPROM s"
  "ramPastNullUID (unlockDoor s) = ramPastNullUID s"
  "serial (unlockDoor s) = serial s"
  "led (unlockDoor s) = 1"
  "doorUnlocks (unlockDoor s) = Suc (doorUnlocks s)"
  "uidLength (unlockDoor s) = uidLength s"
  by (simp_all add: unlockDoor_def)

subsection \<open>The search loop\<close>

lemma findEntry_normal:
  "\<not> adminMode s \<Longrightarrow>
   EEPROM (snd (findEntry c a s)) = EEPROM s \<and> \<not> adminMode (snd (findEntry c a s))"
proof (induction c a s rule: findEntry.induct)
  case (1 c a s)
  show ?case
    using "1.prems" "1.IH" by (subst (1 2) findEntry.simps) (simp add: Let_def)
qed

lemma findEntry_not_found:
  "\<not> fst (findEntry c a s) \<Longrightarrow> \<exists>rb. snd (findEntry c a s) = s\<lparr>readUIDBuffer := rb\<rparr>"
proof (induction c a s rule: findEntry.induct)
  case (1 c a s)
  show ?case
  proof (cases "c < unat (entryCount s)")
    case False
    then have "findEntry c a s = (False, s)" by (subst findEntry.simps) simp
    then have "snd (findEntry c a s) = s\<lparr>readUIDBuffer := readUIDBuffer s\<rparr>" by simp
    then show ?thesis by blast
  next
    case True
    let ?s1 = "readEntry a s"
    from True "1.prems" have nm: "\<not> checkUIDsMatch (scannedUIDBuffer ?s1) (readUIDBuffer ?s1)"
      by (subst (asm) findEntry.simps) (auto simp: Let_def split: if_splits)
    with True have eq: "findEntry c a s = findEntry (Suc c) (a + 7) ?s1"
      by (subst findEntry.simps) (simp add: Let_def)
    with "1.prems" have "\<not> fst (findEntry (Suc c) (a + 7) ?s1)" by simp
    from "1.IH" [OF True refl nm this] obtain rb
      where "snd (findEntry (Suc c) (a + 7) ?s1) = ?s1\<lparr>readUIDBuffer := rb\<rparr>" by blast
    then have "snd (findEntry c a s) = s\<lparr>readUIDBuffer := rb\<rparr>"
      by (simp add: eq readEntry_def)
    then show ?thesis by blast
  qed
qed

lemma findEntry_found_admin:
  "fst (findEntry c a s) \<Longrightarrow> adminMode s \<Longrightarrow> \<not> adminMode (snd (findEntry c a s))"
proof (induction c a s rule: findEntry.induct)
  case (1 c a s)
  show ?case
    using "1.prems" "1.IH"
    by (subst findEntry.simps, subst (asm) (1) findEntry.simps) (auto simp: Let_def split: if_splits)
qed

lemma findEntry_thrifty: "thrifty (EEPROM s) (EEPROM (snd (findEntry c a s)))"
proof (induction c a s rule: findEntry.induct)
  case (1 c a s)
  show ?case
    using "1.IH"
    by (subst findEntry.simps)
       (auto simp: Let_def thrifty_refl thrifty_nullEntry [of "readEntry a s", simplified])
qed

lemma findEntry_no_match:
  "\<forall>j. c \<le> j \<and> j < unat (entryCount s) \<longrightarrow>
        \<not> (\<forall>i<7. scannedUIDBuffer s i = cells (EEPROM s) (1 + 7 * j + i)) \<Longrightarrow>
   a = 1 + 7 * c \<Longrightarrow> \<not> fst (findEntry c a s)"
proof (induction c a s rule: findEntry.induct)
  case (1 c a s)
  show ?case
  proof (cases "c < unat (entryCount s)")
    case False
    then show ?thesis by (subst findEntry.simps) simp
  next
    case True
    let ?s1 = "readEntry a s"
    from True "1.prems" have nm: "\<not> checkUIDsMatch (scannedUIDBuffer ?s1) (readUIDBuffer ?s1)"
      by (auto simp: checkUIDsMatch_iff readUIDBuffer_readEntry)
    have "\<not> fst (findEntry (Suc c) (a + 7) ?s1)"
      using "1.prems" by (intro "1.IH" [OF True refl nm]) auto
    with True nm show ?thesis by (subst findEntry.simps) (simp add: Let_def)
  qed
qed

subsection \<open>The scan for a nulled entry\<close>

lemma recycleScan_not_found:
  "\<not> fst (recycleScan c a s) \<Longrightarrow> \<exists>rb. snd (recycleScan c a s) = s\<lparr>readUIDBuffer := rb\<rparr>"
proof (induction c a s rule: recycleScan.induct)
  case (1 c a s)
  show ?case
  proof (cases "c \<le> unat (entryCount s)")
    case False
    then have "recycleScan c a s = (False, s)" by (subst recycleScan.simps) simp
    then have "snd (recycleScan c a s) = s\<lparr>readUIDBuffer := readUIDBuffer s\<rparr>" by simp
    then show ?thesis by blast
  next
    case True
    let ?s1 = "readEntry a s"
    from True "1.prems" have nm: "\<not> checkUIDsMatch (readUIDBuffer ?s1) (nullUIDEntry ?s1)"
      by (subst (asm) recycleScan.simps) (auto simp: Let_def split: if_splits)
    with True have eq: "recycleScan c a s = recycleScan (Suc c) (a + 7) ?s1"
      by (subst recycleScan.simps) (simp add: Let_def)
    with "1.prems" have "\<not> fst (recycleScan (Suc c) (a + 7) ?s1)" by simp
    from "1.IH" [OF True refl nm this] obtain rb
      where "snd (recycleScan (Suc c) (a + 7) ?s1) = ?s1\<lparr>readUIDBuffer := rb\<rparr>" by blast
    then have "snd (recycleScan c a s) = s\<lparr>readUIDBuffer := rb\<rparr>"
      by (simp add: eq readEntry_def)
    then show ?thesis by blast
  qed
qed

lemma recycleScan_thrifty: "thrifty (EEPROM s) (EEPROM (snd (recycleScan c a s)))"
proof (induction c a s rule: recycleScan.induct)
  case (1 c a s)
  show ?case
    using "1.IH"
    by (subst recycleScan.simps)
       (auto simp: Let_def thrifty_refl thrifty_writeScanned [of "readEntry a s", simplified])
qed

lemma recycleScan_no_tombstone:
  "\<forall>j. c \<le> Suc j \<and> j < unat (entryCount s) \<longrightarrow> \<not> (\<forall>i<7. cells (EEPROM s) (1 + 7 * j + i) = 255) \<Longrightarrow>
   a + 6 = 7 * c \<Longrightarrow> \<not> fst (recycleScan c a s)"
proof (induction c a s rule: recycleScan.induct)
  case (1 c a s)
  show ?case
  proof (cases "c \<le> unat (entryCount s)")
    case False
    then show ?thesis by (subst recycleScan.simps) simp
  next
    case True
    let ?s1 = "readEntry a s"
    from "1.prems"(2) obtain j where j: "c = Suc j" "a = 1 + 7 * j"
      by (cases c) auto
    with True "1.prems"(1) have "\<not> (\<forall>i<7. cells (EEPROM s) (a + i) = 255)"
      by auto
    then have nm: "\<not> checkUIDsMatch (readUIDBuffer ?s1) (nullUIDEntry ?s1)"
      by (auto simp: checkUIDsMatch_iff readUIDBuffer_readEntry nullUIDEntry_inside)
    have "\<not> fst (recycleScan (Suc c) (a + 7) ?s1)"
      using "1.prems" by (intro "1.IH" [OF True refl nm]) auto
    with True nm show ?thesis by (subst recycleScan.simps) (simp add: Let_def)
  qed
qed

lemma adminMode_eepromWriteScannedUIDBuffer: "\<not> adminMode (eepromWriteScannedUIDBuffer s)"
  by (simp add: eepromWriteScannedUIDBuffer_def Let_def split: prod.splits)

lemma thrifty_header:
  "thrifty e e1 \<Longrightarrow> wear e1 0 = wear e 0 \<Longrightarrow> v \<noteq> cells e 0 \<Longrightarrow> thrifty e (EEPROM_write 0 v e1)"
  by (simp add: thrifty_def EEPROM_write_def)

lemma thrifty_append:
  assumes "entryCount s = cells (EEPROM s) 0"
  shows "thrifty (EEPROM s)
           (EEPROM_write 0 (entryCount s + 1) (EEPROM (writeScanned (unat (entryCount s) * 7) s)))"
  using assms by (intro thrifty_header thrifty_writeScanned wear_writeScanned_0) simp

lemma thrifty_eepromWriteScannedUIDBuffer:
  assumes "entryCount s = cells (EEPROM s) 0"
  shows "thrifty (EEPROM s) (EEPROM (eepromWriteScannedUIDBuffer s))"
proof (cases "entryCount s > 0 \<and> fst (recycleScan 1 1 s)")
  case True
  then obtain s1 where "recycleScan 1 1 s = (True, s1)"
    by (cases "recycleScan 1 1 s") auto
  with True show ?thesis
    using recycleScan_thrifty [of s 1 1]
    by (simp add: eepromWriteScannedUIDBuffer_def)
next
  case False
  then obtain rb where
    "(if entryCount s > 0 then recycleScan 1 1 s else (False, s)) = (False, s\<lparr>readUIDBuffer := rb\<rparr>)"
  proof (cases "entryCount s > 0")
    case True
    with False have nf: "\<not> fst (recycleScan 1 1 s)" by simp
    from recycleScan_not_found [OF nf] obtain rb
      where "snd (recycleScan 1 1 s) = s\<lparr>readUIDBuffer := rb\<rparr>" by blast
    with nf True have
      "(if entryCount s > 0 then recycleScan 1 1 s else (False, s)) = (False, s\<lparr>readUIDBuffer := rb\<rparr>)"
      by (simp add: prod_eq_iff)
    then show ?thesis by (rule that)
  next
    case F: False
    then have
      "(if entryCount s > 0 then recycleScan 1 1 s else (False, s)) = (False, s\<lparr>readUIDBuffer := readUIDBuffer s\<rparr>)"
      by simp
    then show ?thesis by (rule that)
  qed
  then show ?thesis
    using thrifty_append [of "s\<lparr>readUIDBuffer := rb\<rparr>"] assms
    by (simp add: eepromWriteScannedUIDBuffer_def Let_def thrifty_refl)
qed

lemma readPassiveTargetID_fields [simp]:
  "entryCount (readPassiveTargetID uid s) = entryCount s"
  "adminMode (readPassiveTargetID uid s) = adminMode s"
  "readUIDBuffer (readPassiveTargetID uid s) = readUIDBuffer s"
  "EEPROM (readPassiveTargetID uid s) = EEPROM s"
  "ramPastNullUID (readPassiveTargetID uid s) = ramPastNullUID s"
  "serial (readPassiveTargetID uid s) = serial s"
  "led (readPassiveTargetID uid s) = led s"
  "doorUnlocks (readPassiveTargetID uid s) = doorUnlocks s"
  "uidLength (readPassiveTargetID uid s) = length uid"
  by (simp_all add: readPassiveTargetID_def)

lemma scannedUIDBuffer_readPassiveTargetID:
  "scannedUIDBuffer (readPassiveTargetID uid s) =
     (\<lambda>i. if i < length uid then uid ! i else scannedUIDBuffer s i)"
  by (simp add: readPassiveTargetID_def fold_fun_upd_upt)

lemma scanned_setLEDMode [simp]:
  "scannedUIDBuffer (readPassiveTargetID uid (setLEDMode m s)) = scannedUIDBuffer (readPassiveTargetID uid s)"
  by (simp add: scannedUIDBuffer_readPassiveTargetID cong: if_cong)

lemma loop_Some:
  "loop (Some uid) s =
     (if checkUIDsMatch (scannedUIDBuffer (readPassiveTargetID uid s)) masterUIDEntry
      then masterDetected (readPassiveTargetID uid (setLEDMode (if adminMode s then 4 else 2) s))
      else cardDetected (readPassiveTargetID uid (setLEDMode (if adminMode s then 4 else 2) s)))"
  by (simp add: loop_def Let_def)

subsection \<open>One pass of the loop\<close>

lemma cardDetected_cases:
  obtains
    (empty) "cells (EEPROM s) 0 = 0"
      "cardDetected s =
         (if \<not> adminMode s then
            setLEDMode 1 (println ''Database empty. Access denied!'' (s\<lparr>entryCount := 0\<rparr>))
          else eepromWriteScannedUIDBuffer (s\<lparr>entryCount := 0\<rparr>))"
  | (found) "cells (EEPROM s) 0 > 0" "fst (findEntry 0 1 (s\<lparr>entryCount := cells (EEPROM s) 0\<rparr>))"
      "cardDetected s = snd (findEntry 0 1 (s\<lparr>entryCount := cells (EEPROM s) 0\<rparr>))"
  | (missing) rb where "cells (EEPROM s) 0 > 0"
      "\<not> fst (findEntry 0 1 (s\<lparr>entryCount := cells (EEPROM s) 0\<rparr>))"
      "cardDetected s =
         (if \<not> adminMode s then
            setLEDMode 1 (println ''Not found in database. Access denied!''
              (s\<lparr>entryCount := cells (EEPROM s) 0, readUIDBuffer := rb\<rparr>))
          else eepromWriteScannedUIDBuffer (s\<lparr>entryCount := cells (EEPROM s) 0, readUIDBuffer := rb\<rparr>))"
proof -
  let ?s = "s\<lparr>entryCount := cells (EEPROM s) 0\<rparr>"
  consider "cells (EEPROM s) 0 = 0" | "cells (EEPROM s) 0 > 0" "fst (findEntry 0 1 ?s)"
    | "cells (EEPROM s) 0 > 0" "\<not> fst (findEntry 0 1 ?s)"
    by (cases "cells (EEPROM s) 0 = 0") (auto simp: word_neq_0_conv)
  then show thesis
  proof cases
    case 1
    then show ?thesis
      by (intro empty) (simp_all add: cardDetected_def EEPROM_read_def)
  next
    case 2
    then show ?thesis
      by (intro found) (simp_all add: cardDetected_def EEPROM_read_def Let_def case_prod_beta)
  next
    case 3
    from findEntry_not_found [OF 3(2)] obtain rb
      where rb: "snd (findEntry 0 1 ?s) = ?s\<lparr>readUIDBuffer := rb\<rparr>" by blast
    with 3(2) have "findEntry 0 1 ?s = (False, ?s\<lparr>readUIDBuffer := rb\<rparr>)"
      by (simp add: prod_eq_iff)
    with 3 show ?thesis
      by (intro missing [of rb]) (simp_all add: cardDetected_def EEPROM_read_def Let_def)
  qed
qed

lemma cardDetected_normal:
  assumes "\<not> adminMode s"
  shows "EEPROM (cardDetected s) = EEPROM s \<and> \<not> adminMode (cardDetected s)"
proof (cases s rule: cardDetected_cases)
  case empty
  with assms show ?thesis by simp
next
  case found
  with assms findEntry_normal [of "s\<lparr>entryCount := cells (EEPROM s) 0\<rparr>" 0 1] show ?thesis by simp
next
  case (missing rb)
  with assms show ?thesis by simp
qed

lemma cardDetected_admin:
  assumes "adminMode s"
  shows "\<not> adminMode (cardDetected s)"
proof (cases s rule: cardDetected_cases)
  case empty
  with assms show ?thesis by (simp add: adminMode_eepromWriteScannedUIDBuffer)
next
  case found
  with assms findEntry_found_admin [of 0 1 "s\<lparr>entryCount := cells (EEPROM s) 0\<rparr>"] show ?thesis by simp
next
  case (missing rb)
  with assms show ?thesis by (simp add: adminMode_eepromWriteScannedUIDBuffer)
qed

lemma thrifty_cardDetected: "thrifty (EEPROM s) (EEPROM (cardDetected s))"
proof (cases s rule: cardDetected_cases)
  case empty
  then show ?thesis
    using thrifty_eepromWriteScannedUIDBuffer [of "s\<lparr>entryCount := 0\<rparr>"]
    by (simp add: thrifty_refl)
next
  case found
  then show ?thesis
    using findEntry_thrifty [of "s\<lparr>entryCount := cells (EEPROM s) 0\<rparr>" 0 1] by simp
next
  case (missing rb)
  then show ?thesis
    using thrifty_eepromWriteScannedUIDBuffer [of "s\<lparr>entryCount := cells (EEPROM s) 0, readUIDBuffer := rb\<rparr>"]
    by (simp add: thrifty_refl)
qed

lemma thrifty_masterDetected: "thrifty (EEPROM s) (EEPROM (masterDetected s))"
  using thrifty_clearDatabase [of "setLEDMode 7
              (println ''Master detected. Admin mode already enabled, clearing database.'' s)"]
  by (simp add: masterDetected_def thrifty_refl)

lemma thrifty_loop: "thrifty (EEPROM s) (EEPROM (loop scan s))"
proof (cases scan)
  case None
  then show ?thesis by (simp add: loop_def thrifty_refl)
next
  case (Some uid)
  let ?s = "readPassiveTargetID uid (setLEDMode (if adminMode s then 4 else 2) s)"
  have e: "EEPROM ?s = EEPROM s" by simp
  show ?thesis
  proof (cases "checkUIDsMatch (scannedUIDBuffer (readPassiveTargetID uid s)) masterUIDEntry")
    case True
    with thrifty_masterDetected [of ?s] show ?thesis
      unfolding Some loop_Some e by simp
  next
    case False
    with thrifty_cardDetected [of ?s] show ?thesis
      unfolding Some loop_Some e by simp
  qed
qed

subsection \<open>Outcomes of a pass\<close>

lemma checkUIDsMatch_unfold:
  "checkUIDsMatch p q \<longleftrightarrow>
     p 0 = q 0 \<and> p 1 = q 1 \<and> p 2 = q 2 \<and> p 3 = q 3 \<and> p 4 = q 4 \<and> p 5 = q 5 \<and> p 6 = q 6"
  by (auto simp: checkUIDsMatch_def eval_nat_numeral)

lemma findEntry_found_admin_serial:
  "fst (findEntry c a s) \<Longrightarrow> adminMode s \<Longrightarrow>
   serial (snd (findEntry c a s)) = serial s @ [''Found in database. Removed entry.'']"
proof (induction c a s rule: findEntry.induct)
  case (1 c a s)
  show ?case
    using "1.prems" "1.IH"
    by (subst findEntry.simps, subst (asm) (1) findEntry.simps) (auto simp: Let_def split: if_splits)
qed

lemma recycleScan_found_serial:
  "fst (recycleScan c a s) \<Longrightarrow>
   serial (snd (recycleScan c a s)) = serial s @ [''Not found in database. Card saved!'']"
proof (induction c a s rule: recycleScan.induct)
  case (1 c a s)
  show ?case
    using "1.prems" "1.IH"
    by (subst recycleScan.simps, subst (asm) (1) recycleScan.simps) (auto simp: Let_def split: if_splits)
qed

lemma serial_eepromWriteScannedUIDBuffer:
  "serial (eepromWriteScannedUIDBuffer s) = serial s @ [''Not found in database. Card saved!''] \<or>
   serial (eepromWriteScannedUIDBuffer s) = serial s @ [''Out of space! All entries currently in use.'']"
proof (cases "entryCount s > 0 \<and> fst (recycleScan 1 1 s)")
  case True
  with recycleScan_found_serial [of 1 1 s] show ?thesis
    by (simp add: eepromWriteScannedUIDBuffer_def case_prod_beta)
next
  case False
  show ?thesis
  proof (cases "entryCount s > 0")
    case True
    with False have nf: "\<not> fst (recycleScan 1 1 s)" by simp
    from recycleScan_not_found [OF nf] obtain rb
      where "snd (recycleScan 1 1 s) = s\<lparr>readUIDBuffer := rb\<rparr>" by blast
    with nf True show ?thesis
      by (auto simp: eepromWriteScannedUIDBuffer_def case_prod_beta Let_def not_le)
  next
    case F: False
    then show ?thesis
      by (auto simp: eepromWriteScannedUIDBuffer_def Let_def not_le)
  qed
qed

lemma EEPROM_writeScanned_update [simp]:
  "EEPROM (writeScanned base (s\<lparr>readUIDBuffer := rb\<rparr>)) = EEPROM (writeScanned base s)"
  "EEPROM (writeScanned base (s\<lparr>entryCount := n\<rparr>)) = EEPROM (writeScanned base s)"
  by (simp_all add: writeScanned_def)

lemma eepromWriteScannedUIDBuffer_no_tombstone:
  assumes "\<forall>j<unat (entryCount s). \<not> (\<forall>i<7. cells (EEPROM s) (1 + 7 * j + i) = 255)"
  shows "EEPROM (eepromWriteScannedUIDBuffer s) =
           (if entryCount s < 145
            then EEPROM_write 0 (entryCount s + 1) (EEPROM (writeScanned (unat (entryCount s) * 7) s))
            else EEPROM s) \<and>
         serial (eepromWriteScannedUIDBuffer s) =
           serial s @ [if entryCount s < 145 then ''Not found in database. Card saved!''
                       else ''Out of space! All entries currently in use.'']"
proof -
  have nf: "\<not> fst (recycleScan 1 1 s)"
    using assms by (intro recycleScan_no_tombstone) auto
  from recycleScan_not_found [OF nf] obtain rb
    where "snd (recycleScan 1 1 s) = s\<lparr>readUIDBuffer := rb\<rparr>" by blast
  with nf show ?thesis
    by (auto simp: eepromWriteScannedUIDBuffer_def case_prod_beta Let_def not_le)
qed

lemma cardDetected_admin_no_match:
  assumes a: "adminMode s"
    and nm: "\<forall>j<unat (cells (EEPROM s) 0).
               \<not> (\<forall>i<7. scannedUIDBuffer s i = cells (EEPROM s) (1 + 7 * j + i))"
    and nt: "\<forall>j<unat (cells (EEPROM s) 0). \<not> (\<forall>i<7. cells (EEPROM s) (1 + 7 * j + i) = 255)"
  shows "EEPROM (cardDetected s) =
           (if cells (EEPROM s) 0 < 145
            then EEPROM_write 0 (cells (EEPROM s) 0 + 1)
                   (EEPROM (writeScanned (unat (cells (EEPROM s) 0) * 7) s))
            else EEPROM s) \<and>
         serial (cardDetected s) =
           serial s @ [if cells (EEPROM s) 0 < 145 then ''Not found in database. Card saved!''
                       else ''Out of space! All entries currently in use.'']"
proof (cases s rule: cardDetected_cases)
  case empty
  with a eepromWriteScannedUIDBuffer_no_tombstone [of "s\<lparr>entryCount := 0\<rparr>"]
  show ?thesis by simp
next
  case found
  have "\<not> fst (findEntry 0 1 (s\<lparr>entryCount := cells (EEPROM s) 0\<rparr>))"
    using nm by (intro findEntry_no_match) auto
  with found show ?thesis by simp
next
  case (missing rb)
  with a nt eepromWriteScannedUIDBuffer_no_tombstone
      [of "s\<lparr>entryCount := cells (EEPROM s) 0, readUIDBuffer := rb\<rparr>"]
  show ?thesis by simp
qed

lemma master_matches [simp]:
  "checkUIDsMatch (scannedUIDBuffer (readPassiveTargetID masterUID s)) masterUIDEntry"
  by (simp add: checkUIDsMatch_iff scannedUIDBuffer_readPassiveTargetID masterUIDEntry_def masterUID_def)

lemma loop_master_normal:
  assumes "\<not> adminMode s"
  shows "adminMode (loop (Some masterUID) s)"
    and "EEPROM (loop (Some masterUID) s) = EEPROM s"
    and "serial (loop (Some masterUID) s) = serial s @ [''Master detected. Entering admin mode.'']"
    and "ramPastNullUID (loop (Some masterUID) s) = ramPastNullUID s"
  using assms by (simp_all add: loop_Some masterDetected_def)

lemma loop_master_admin:
  assumes "adminMode s"
  shows "\<not> adminMode (loop (Some masterUID) s)"
    and "cells (EEPROM (loop (Some masterUID) s)) b =
           (if b = 0 then 0 else if b < 1024 then nullUIDEntry s b else cells (EEPROM s) b)"
    and "serial (loop (Some masterUID) s) =
           serial s @ [''Master detected. Admin mode already enabled, clearing database.'']"
  using assms by (simp_all add: loop_Some masterDetected_def cells_clearDatabase nullUIDEntry_def)

lemma cardDetected_empty_normal:
  assumes "\<not> adminMode s" and "cells (EEPROM s) 0 = 0"
  shows "cardDetected s = setLEDMode 1 (println ''Database empty. Access denied!'' (s\<lparr>entryCount := 0\<rparr>))"
  using assms by (simp add: cardDetected_def EEPROM_read_def)

lemma list7_eqI:
  "length x = 7 \<Longrightarrow> length y = 7 \<Longrightarrow> \<forall>i<7. x ! i = y ! i \<Longrightarrow> x = y"
  by (simp add: nth_equalityI)

lemma enrollable_not_master:
  assumes "enrollable uid"
  shows "\<not> checkUIDsMatch (scannedUIDBuffer (readPassiveTargetID uid s)) masterUIDEntry"
proof
  assume "checkUIDsMatch (scannedUIDBuffer (readPassiveTargetID uid s)) masterUIDEntry"
  with assms have "\<forall>i<7. uid ! i = masterUID ! i"
    by (simp add: checkUIDsMatch_iff scannedUIDBuffer_readPassiveTargetID masterUIDEntry_def
        enrollable_def)
  with assms have "uid = masterUID"
    by (intro list7_eqI) (simp_all add: enrollable_def masterUID_def)
  with assms show False by (simp add: enrollable_def)
qed

lemma enrollable_not_null:
  assumes "enrollable uid"
  shows "\<not> (\<forall>i<7. uid ! i = 255)"
proof
  assume "\<forall>i<7. uid ! i = 255"
  then have "\<forall>i<7. uid ! i = nullUID ! i" by (simp add: nullUID_nth)
  with assms have "uid = nullUID"
    by (intro list7_eqI) (simp_all add: enrollable_def nullUID_def)
  with assms show False by (simp add: enrollable_def)
qed

lemma unat_of_nat_u8: "n < 256 \<Longrightarrow> unat (of_nat n :: u8) = n"
  by (simp add: unat_of_nat)

lemma of_nat_u8_less: "n < 256 \<Longrightarrow> (of_nat n :: u8) < 145 \<longleftrightarrow> n < 145"
  by (simp add: word_less_nat_alt unat_of_nat_u8)

subsection \<open>Enrolling cards\<close>

lemma enrol_step:
  assumes h: "holds (EEPROM s) ids" and n: "\<not> adminMode s" and len: "length ids \<le> 145"
    and old: "\<forall>x\<in>set ids. enrollable x" and new: "enrollable uid" "uid \<notin> set ids"
  shows "length ids < 145 \<Longrightarrow> holds (EEPROM (run [Some masterUID, Some uid] s)) (ids @ [uid])"
    and "length ids = 145 \<Longrightarrow> EEPROM (run [Some masterUID, Some uid] s) = EEPROM s"
    and "\<not> adminMode (run [Some masterUID, Some uid] s)"
    and "serial (run [Some masterUID, Some uid] s) =
           serial s @ [''Master detected. Entering admin mode.'',
             if length ids < 145 then ''Not found in database. Card saved!''
             else ''Out of space! All entries currently in use.'']"
proof -
  let ?n = "length ids"
  let ?s1 = "loop (Some masterUID) s"
  let ?s = "readPassiveTargetID uid (setLEDMode (if adminMode ?s1 then 4 else 2) ?s1)"
  have r: "run [Some masterUID, Some uid] s = cardDetected ?s"
    using enrollable_not_master [OF new(1)] by (simp add: run_def loop_Some)
  have a: "adminMode ?s" and e: "EEPROM ?s = EEPROM s"
    and ser: "serial ?s = serial s @ [''Master detected. Entering admin mode.'']"
    using loop_master_normal [OF n] by simp_all
  have buf: "scannedUIDBuffer ?s i = uid ! i" if "i < 7" for i
    using that new(1) by (simp add: scannedUIDBuffer_readPassiveTargetID enrollable_def)
  have buf': "scannedUIDBuffer (readPassiveTargetID uid ?s1) i = uid ! i" if "i < 7" for i
    using that new(1) by (simp add: scannedUIDBuffer_readPassiveTargetID enrollable_def)
  have hd: "cells (EEPROM s) 0 = of_nat ?n"
    using h by (simp add: holds_def EEPROM_read_def)
  have ent: "cells (EEPROM s) (1 + 7 * j + i) = ids ! j ! i" if "j < ?n" "i < 7" for j i
    using h that by (simp add: holds_def EEPROM_read_def)
  have un: "unat (cells (EEPROM s) 0) = ?n"
    using len by (simp add: hd unat_of_nat_u8)
  have nm: "\<forall>j<unat (cells (EEPROM ?s) 0).
              \<not> (\<forall>i<7. scannedUIDBuffer ?s i = cells (EEPROM ?s) (1 + 7 * j + i))"
    unfolding e un
  proof (intro allI impI notI)
    fix j assume j: "j < ?n"
      and m: "\<forall>i<7. scannedUIDBuffer ?s i = cells (EEPROM s) (1 + 7 * j + i)"
    have "\<forall>i<7. uid ! i = ids ! j ! i"
    proof (intro allI impI)
      fix i :: nat assume i: "i < 7"
      with m have "scannedUIDBuffer ?s i = cells (EEPROM s) (1 + 7 * j + i)" by blast
      with buf [OF i] ent [OF j i] show "uid ! i = ids ! j ! i" by simp
    qed
    with new(1) old j have "uid = ids ! j"
      by (intro list7_eqI) (simp_all add: enrollable_def)
    with new(2) j show False by simp
  qed
  have nt: "\<forall>j<unat (cells (EEPROM ?s) 0). \<not> (\<forall>i<7. cells (EEPROM ?s) (1 + 7 * j + i) = 255)"
    unfolding e un
  proof (intro allI impI)
    fix j assume j: "j < ?n"
    with old have "enrollable (ids ! j)" by simp
    from enrollable_not_null [OF this] obtain i where i: "i < 7" "ids ! j ! i \<noteq> 255" by blast
    with ent [OF j i(1)] have "cells (EEPROM s) (1 + 7 * j + i) \<noteq> 255" by simp
    with i(1) show "\<not> (\<forall>i<7. cells (EEPROM s) (1 + 7 * j + i) = 255)" by blast
  qed
  have U: "unat (of_nat ?n :: u8) = ?n" and lt: "(of_nat ?n :: u8) < 145 \<longleftrightarrow> ?n < 145"
    using len by (simp_all add: unat_of_nat_u8 of_nat_u8_less)
  note cd = cardDetected_admin_no_match [OF a nm nt, unfolded e hd U lt]
  show "\<not> adminMode (run [Some masterUID, Some uid] s)"
    unfolding r using a by (rule cardDetected_admin)
  show "serial (run [Some masterUID, Some uid] s) =
           serial s @ [''Master detected. Entering admin mode.'',
             if length ids < 145 then ''Not found in database. Card saved!''
             else ''Out of space! All entries currently in use.'']"
    unfolding r using cd by (simp add: loop_master_normal(3) [OF n])
  show "EEPROM (run [Some masterUID, Some uid] s) = EEPROM s" if "?n = 145"
    unfolding r using cd that by simp
  show "holds (EEPROM (run [Some masterUID, Some uid] s)) (ids @ [uid])" if less: "?n < 145"
  proof -
    have E: "EEPROM (cardDetected ?s) =
               EEPROM_write 0 (of_nat ?n + 1) (EEPROM (writeScanned (?n * 7) ?s))"
      using cd less by simp
    have c: "cells (EEPROM (cardDetected ?s)) b =
               (if b = 0 then of_nat (Suc ?n)
                else if ?n * 7 + 1 \<le> b \<and> b < ?n * 7 + 8 then uid ! (b - (?n * 7 + 1))
                else cells (EEPROM s) b)" for b
      unfolding E
      by (auto simp: EEPROM_write_def cells_writeScanned loop_master_normal(2) [OF n] buf')
    show ?thesis
      unfolding r holds_def EEPROM_read_def
    proof (intro conjI allI impI)
      show "cells (EEPROM (cardDetected ?s)) 0 = of_nat (length (ids @ [uid]))"
        by (simp add: c)
    next
      fix j i assume j: "j < length (ids @ [uid])" and i: "i < (7::nat)"
      show "cells (EEPROM (cardDetected ?s)) (1 + 7 * j + i) = (ids @ [uid]) ! j ! i"
      proof (cases "j < ?n")
        case True
        with i have "\<not> (?n * 7 + 1 \<le> 1 + 7 * j + i)" by simp
        with True i ent [OF True i] show ?thesis by (simp add: c nth_append)
      next
        case False
        with j have "j = ?n" by simp
        with i show ?thesis by (simp add: c nth_append mult.commute)
      qed
    qed
  qed
qed

lemma run_enrol_snoc:
  "run (enrol (ids @ [uid])) s = run [Some masterUID, Some uid] (run (enrol ids) s)"
  by (simp add: run_def enrol_def)

lemma enrol_invariant:
  assumes "EEPROM_read (EEPROM s) 0 = 0" and "\<not> adminMode s"
  shows "distinct ids \<Longrightarrow> \<forall>x\<in>set ids. enrollable x \<Longrightarrow> length ids \<le> 145 \<Longrightarrow>
         holds (EEPROM (run (enrol ids) s)) ids \<and> \<not> adminMode (run (enrol ids) s)"
proof (induction ids rule: rev_induct)
  case Nil
  with assms show ?case by (simp add: run_def enrol_def holds_def)
next
  case (snoc uid ids)
  then have ih: "holds (EEPROM (run (enrol ids) s)) ids" "\<not> adminMode (run (enrol ids) s)"
    by simp_all
  from snoc.prems have p: "length ids \<le> 145" "\<forall>x\<in>set ids. enrollable x" "enrollable uid"
    "uid \<notin> set ids" "length ids < 145"
    by simp_all
  from enrol_step(1) [OF ih p(1-4) p(5)] enrol_step(3) [OF ih p(1-4)]
  show ?case by (simp add: run_enrol_snoc)
qed

lemma sampleCards_Suc: "sampleCards (Suc k) = sampleCards k @ [[of_nat k, 0, 0, 0, 0, 0, 0]]"
  by (simp add: sampleCards_def)

lemma distinct_sampleCards: "k \<le> 256 \<Longrightarrow> distinct (sampleCards k)"
proof -
  assume k: "k \<le> 256"
  have "inj_on (\<lambda>n. [of_nat n :: u8, 0, 0, 0, 0, 0, 0]) {0..<k}"
  proof (rule inj_onI)
    fix x y assume x: "x \<in> {0..<k}" and y: "y \<in> {0..<k}"
      and "[of_nat x :: u8, 0, 0, 0, 0, 0, 0] = [of_nat y, 0, 0, 0, 0, 0, 0]"
    then have "unat (of_nat x :: u8) = unat (of_nat y :: u8)" by simp
    with x y k show "x = y" by (simp add: unat_of_nat_u8)
  qed
  then show ?thesis by (simp add: sampleCards_def distinct_map)
qed

lemma enrollable_sampleCards: "x \<in> set (sampleCards k) \<Longrightarrow> enrollable x"
  by (auto simp: sampleCards_def enrollable_def masterUID_def nullUID_def)

section \<open>The claims\<close>

text \<open>
  C1. A card is enrolled and removed again, which leaves entry 1 nulled under a header
  of 1, and then a second card is enrolled. The claim expects the second card in entry 1
  (cells 1 to 7). The scan reads entry \<open>currentEntry\<close> at \<open>1 + 7 * (currentEntry - 1)\<close> but
  writes at \<^verbatim>\<open>(currentEntry * 7) + 1\<close>: entry 1 is still nulled afterwards and the card
  lies in cells 8 to 14, the place of entry 2, beyond the header's count.
\<close>

theorem recycle_writes_following_entry:
  "map (cells (EEPROM (run [Some masterUID, Some [10, 20, 30, 40, 50, 60, 70],
                            Some masterUID, Some [10, 20, 30, 40, 50, 60, 70],
                            Some masterUID, Some [1, 2, 3, 4, 5, 6, 7]]
                         (initial (filledEEPROM 0 0) (\<lambda>_. 0))))) [0..<15] =
     [1, 255, 255, 255, 255, 255, 255, 255, 1, 2, 3, 4, 5, 6, 7]"
  by code_simp

text \<open>
  C2. The wipe writes \<^verbatim>\<open>_nullUIDEntry[i]\<close> into cell \<open>i\<close>, and the array has 7 elements:
  from cell 7 on, the byte written is whatever the memory holds behind the array. The
  header is 0 and cells 1 to 6 are 255 afterwards, but cells 7 to 1023 hold those bytes;
  where they are 0, the last byte of entry 1 and all of entry 2 are 0, not 255.
\<close>

theorem wipe_reads_past_null_entry:
  "map (cells (EEPROM (run [Some masterUID, Some masterUID] (initial e ram)))) [7..<1024] =
     map ram [7..<1024] \<and>
   map (cells (EEPROM (run [Some masterUID, Some masterUID] (initial (filledEEPROM 3 9) (\<lambda>_. 0)))))
     [0..<15] = [0, 255, 255, 255, 255, 255, 255, 0, 0, 0, 0, 0, 0, 0, 0]"
proof -
  have c: "cells (EEPROM (run [Some masterUID, Some masterUID] (initial e ram))) b =
             (if b = 0 then 0 else if b < 7 then 255 else if b < 1024 then ram b else cells e b)"
    for e ram b
  proof -
    let ?s = "initial e ram"
    have n: "\<not> adminMode ?s" by (simp add: initial_def)
    have a: "adminMode (loop (Some masterUID) ?s)" using n by (rule loop_master_normal)
    have "ramPastNullUID (loop (Some masterUID) ?s) = ram" "EEPROM (loop (Some masterUID) ?s) = e"
      using loop_master_normal(2,4) [OF n] by (simp_all add: initial_def)
    then show ?thesis
      by (simp add: run_def loop_master_admin(2) [OF a] nullUIDEntry_def nullUID_nth)
  qed
  have l: "[0..<15] = [0, 1, 2, 3, 4, 5, 6, 7, 8, 9, 10, 11, 12, 13, 14]"
    by code_simp
  have "map (cells (EEPROM (run [Some masterUID, Some masterUID] (initial e ram)))) [7..<1024] =
          map ram [7..<1024]"
  proof (rule map_cong [OF refl])
    fix x :: nat assume "x \<in> set [7..<1024]"
    then have "7 \<le> x" "x < 1024" by (simp_all only: set_upt atLeastLessThan_iff)
    then show "cells (EEPROM (run [Some masterUID, Some masterUID] (initial e ram))) x = ram x"
      by (simp add: c)
  qed
  moreover have "map (cells (EEPROM (run [Some masterUID, Some masterUID]
                    (initial (filledEEPROM 3 9) (\<lambda>_. 0))))) [0..<15] =
                 [0, 255, 255, 255, 255, 255, 255, 0, 0, 0, 0, 0, 0, 0, 0]"
    unfolding l by (simp add: c)
  ultimately show ?thesis by (rule conjI)
qed

text \<open>
  C3. The same scenario as for C1, followed by the card itself in normal mode: a card is
  enrolled and removed, a second card is enrolled (the pass prints that it was saved)
  and is then presented. The database is not full, and still the card that was just
  saved is not found: access is denied and the door stays locked.
\<close>

theorem saved_card_not_found:
  "(let s = run [Some masterUID, Some [10, 20, 30, 40, 50, 60, 70],
                 Some masterUID, Some [10, 20, 30, 40, 50, 60, 70],
                 Some masterUID, Some [1, 2, 3, 4, 5, 6, 7],
                 Some [1, 2, 3, 4, 5, 6, 7]]
             (initial (filledEEPROM 0 0) (\<lambda>_. 0))
    in (serial s, doorUnlocks s)) =
   ([''Master detected. Entering admin mode.'',
     ''Not found in database. Card saved!'',
     ''Master detected. Entering admin mode.'',
     ''Found in database. Removed entry.'',
     ''Master detected. Entering admin mode.'',
     ''Not found in database. Card saved!'',
     ''Not found in database. Access denied!''], 0)"
  by code_simp

text \<open>
  C4. Every physical write is a write of a changed byte. Over any pass of the loop
  (saving, removing, wiping or anything else) the write count of a cell grows by one
  if the content of the cell has changed and not at all if it has not; and
  \<^verbatim>\<open>eepromSafeWrite\<close> alone writes cell \<open>a\<close> once if it holds another byte than the
  target and never otherwise. The header write of \<^verbatim>\<open>eepromWriteScannedUIDBuffer\<close>
  goes to \<^verbatim>\<open>EEPROM.write\<close> directly; it always changes the byte, since the count was
  read from the header in the same pass.
\<close>

theorem writes_only_change:
  "wear (EEPROM (loop scan s)) b =
     wear (EEPROM s) b + (if cells (EEPROM (loop scan s)) b = cells (EEPROM s) b then 0 else 1) \<and>
   wear (eepromSafeWrite a v e) b = wear e b + (if b = a \<and> cells e a \<noteq> v then 1 else 0)"
  using thrifty_loop [of s scan]
  by (simp add: thrifty_def eepromSafeWrite_def EEPROM_read_def EEPROM_write_def)

text \<open>
  C5. The scan buffer is zeroed once, at start-up, and a scan stores only the bytes of
  the identifier. A card with the 4-byte identifier 9, 9, 9, 9 is enrolled right after
  the master card: it is stored with the last three bytes of the master card, 80, 40, 0,
  and found at the next pass. After a card with a 7-byte identifier has been presented,
  the same 4-byte card is compared as 9, 9, 9, 9, 5, 6, 7 and denied. In neither case is
  the identifier in use 9, 9, 9, 9, 0, 0, 0.
\<close>

theorem short_identifier_keeps_stale_bytes:
  "(let s = run [Some masterUID, Some [9, 9, 9, 9], Some [9, 9, 9, 9],
                 Some [1, 2, 3, 4, 5, 6, 7], Some [9, 9, 9, 9]]
             (initial (filledEEPROM 0 0) (\<lambda>_. 0))
    in (map (cells (EEPROM s)) [0..<8], map (scannedUIDBuffer s) [0..<7], serial s)) =
   ([1, 9, 9, 9, 9, 80, 40, 0],
    [9, 9, 9, 9, 5, 6, 7],
    [''Master detected. Entering admin mode.'',
     ''Not found in database. Card saved!'',
     ''Found in database. Unlocking door.'',
     ''Not found in database. Access denied!'',
     ''Not found in database. Access denied!''])"
  by code_simp

text \<open>
  C6. Whenever a card other than the master card is processed in admin mode, admin mode
  is off at the end of that pass of the loop. The pass has printed exactly one line,
  which is one of the three outcomes: the entry was found and removed, the card was
  saved (in a fresh or in a recycled entry), or the database is out of space.
\<close>

theorem admin_card_ends_normal:
  assumes "adminMode s"
    and "\<not> checkUIDsMatch (scannedUIDBuffer (readPassiveTargetID uid s)) masterUIDEntry"
  shows "\<not> adminMode (loop (Some uid) s) \<and>
         (serial (loop (Some uid) s) = serial s @ [''Found in database. Removed entry.''] \<or>
          serial (loop (Some uid) s) = serial s @ [''Not found in database. Card saved!''] \<or>
          serial (loop (Some uid) s) = serial s @ [''Out of space! All entries currently in use.''])"
proof -
  let ?s = "readPassiveTargetID uid (setLEDMode (if adminMode s then 4 else 2) s)"
  have l: "loop (Some uid) s = cardDetected ?s"
    using assms(2) by (simp add: loop_Some)
  have a: "adminMode ?s" and ser: "serial ?s = serial s"
    using assms(1) by simp_all
  have "serial (cardDetected ?s) = serial ?s @ [''Found in database. Removed entry.''] \<or>
        serial (cardDetected ?s) = serial ?s @ [''Not found in database. Card saved!''] \<or>
        serial (cardDetected ?s) = serial ?s @ [''Out of space! All entries currently in use.'']"
  proof (cases ?s rule: cardDetected_cases)
    case empty
    with a serial_eepromWriteScannedUIDBuffer [of "?s\<lparr>entryCount := 0\<rparr>"] show ?thesis
      by simp
  next
    case found
    with a findEntry_found_admin_serial [of 0 1 "?s\<lparr>entryCount := cells (EEPROM ?s) 0\<rparr>"]
    show ?thesis by simp
  next
    case (missing rb)
    with a serial_eepromWriteScannedUIDBuffer
        [of "?s\<lparr>entryCount := cells (EEPROM ?s) 0, readUIDBuffer := rb\<rparr>"]
    show ?thesis by simp
  qed
  with cardDetected_admin [OF a] show ?thesis
    unfolding l ser by simp
qed

theorem admin_card_ends_normal_witness:
  "\<not> adminMode (loop (Some [1, 2, 3, 4, 5, 6, 7]) ((initial (filledEEPROM 0 255) (\<lambda>_. 0))\<lparr>adminMode := True\<rparr>))"
  using admin_card_ends_normal
    [of "(initial (filledEEPROM 0 255) (\<lambda>_. 0))\<lparr>adminMode := True\<rparr>" "[1, 2, 3, 4, 5, 6, 7]"]
  by (simp add: checkUIDsMatch_unfold scannedUIDBuffer_readPassiveTargetID masterUIDEntry_def
      masterUID_def)

text \<open>
  C7. From any state in normal mode, whatever the database holds, presenting the master
  card twice leaves the header at 0 and normal mode on. After that no card is found:
  the search loop finds no entry for any content of the scan buffer, and presenting any
  card other than the master card is answered with the line for an empty database,
  without unlocking the door.
\<close>

theorem master_twice_wipes:
  assumes "\<not> adminMode s"
  shows "EEPROM_read (EEPROM (run [Some masterUID, Some masterUID] s)) 0 = 0 \<and>
         \<not> adminMode (run [Some masterUID, Some masterUID] s) \<and>
         (\<forall>buf. \<not> fst (findEntry 0 1 ((run [Some masterUID, Some masterUID] s)
                    \<lparr>scannedUIDBuffer := buf,
                      entryCount := EEPROM_read (EEPROM (run [Some masterUID, Some masterUID] s)) 0\<rparr>))) \<and>
         (\<forall>uid. \<not> checkUIDsMatch
                    (scannedUIDBuffer (readPassiveTargetID uid (run [Some masterUID, Some masterUID] s)))
                    masterUIDEntry \<longrightarrow>
            serial (loop (Some uid) (run [Some masterUID, Some masterUID] s)) =
              serial (run [Some masterUID, Some masterUID] s) @ [''Database empty. Access denied!''] \<and>
            doorUnlocks (loop (Some uid) (run [Some masterUID, Some masterUID] s)) =
              doorUnlocks (run [Some masterUID, Some masterUID] s))"
proof -
  let ?s1 = "loop (Some masterUID) s"
  let ?s2 = "loop (Some masterUID) ?s1"
  have r: "run [Some masterUID, Some masterUID] s = ?s2" by (simp add: run_def)
  have a1: "adminMode ?s1" using assms by (rule loop_master_normal)
  have n2: "\<not> adminMode ?s2" using a1 by (rule loop_master_admin)
  have h: "cells (EEPROM ?s2) 0 = 0" using loop_master_admin(2) [OF a1, of 0] by simp
  have f: "\<not> fst (findEntry 0 1 (?s2\<lparr>scannedUIDBuffer := buf, entryCount := EEPROM_read (EEPROM ?s2) 0\<rparr>))" for buf
    using h by (subst findEntry.simps) (simp add: EEPROM_read_def)
  have d: "serial (loop (Some uid) ?s2) = serial ?s2 @ [''Database empty. Access denied!''] \<and>
           doorUnlocks (loop (Some uid) ?s2) = doorUnlocks ?s2"
    if "\<not> checkUIDsMatch (scannedUIDBuffer (readPassiveTargetID uid ?s2)) masterUIDEntry" for uid
  proof -
    let ?s = "readPassiveTargetID uid (setLEDMode (if adminMode ?s2 then 4 else 2) ?s2)"
    have "loop (Some uid) ?s2 = cardDetected ?s" using that by (simp add: loop_Some)
    moreover have "\<not> adminMode ?s" "cells (EEPROM ?s) 0 = 0" using n2 h by simp_all
    ultimately show ?thesis by (simp add: cardDetected_empty_normal)
  qed
  from h n2 f d show ?thesis unfolding r by (simp add: EEPROM_read_def)
qed

theorem master_twice_wipes_witness:
  "EEPROM_read (EEPROM (run [Some masterUID, Some masterUID] (initial (filledEEPROM 3 9) (\<lambda>_. 0)))) 0 = 0 \<and>
   serial (loop (Some [9, 9, 9, 9, 9, 9, 9])
      (run [Some masterUID, Some masterUID] (initial (filledEEPROM 3 9) (\<lambda>_. 0)))) =
     [''Master detected. Entering admin mode.'',
      ''Master detected. Admin mode already enabled, clearing database.'',
      ''Database empty. Access denied!'']"
proof -
  let ?s = "initial (filledEEPROM 3 9) (\<lambda>_. 0)"
  let ?s2 = "run [Some masterUID, Some masterUID] ?s"
  have n: "\<not> adminMode ?s" and s0: "serial ?s = []" by (simp_all add: initial_def)
  have a1: "adminMode (loop (Some masterUID) ?s)" using n by (rule loop_master_normal)
  have ser: "serial ?s2 = [''Master detected. Entering admin mode.'',
      ''Master detected. Admin mode already enabled, clearing database.'']"
    by (simp add: run_def loop_master_admin(3) [OF a1] loop_master_normal(3) [OF n] s0)
  have nm: "\<not> checkUIDsMatch (scannedUIDBuffer (readPassiveTargetID [9, 9, 9, 9, 9, 9, 9] ?s2)) masterUIDEntry"
    by (simp add: checkUIDsMatch_unfold scannedUIDBuffer_readPassiveTargetID masterUIDEntry_def
        masterUID_def)
  from master_twice_wipes [OF n] nm ser show ?thesis by simp
qed

text \<open>
  C8. Start with the header at 0 and normal mode, and enrol 145 distinct cards (7 bytes
  each, none the master card, none the null entry), each by the master card followed by
  the card, with no removal in between. Every one of the 145 is saved: the pass prints
  the line for a saved card and the database then consists of the cards enrolled so
  far, in order, with their number in the header. Enrolling one further card after the
  145 is answered with the line for a full database and changes nothing in the EEPROM.
\<close>

theorem capacity_boundary:
  assumes "EEPROM_read (EEPROM s) 0 = 0" and "\<not> adminMode s"
    and "length ids = 145" and "distinct (ids @ [extra])"
    and "\<forall>x\<in>set (ids @ [extra]). enrollable x"
  shows "(\<forall>n<145.
            serial (run (enrol (take (Suc n) ids)) s) =
              serial (run (enrol (take n ids)) s) @
                [''Master detected. Entering admin mode.'', ''Not found in database. Card saved!''] \<and>
            holds (EEPROM (run (enrol (take (Suc n) ids)) s)) (take (Suc n) ids)) \<and>
         serial (run (enrol (ids @ [extra])) s) =
           serial (run (enrol ids) s) @
             [''Master detected. Entering admin mode.'',
              ''Out of space! All entries currently in use.''] \<and>
         EEPROM (run (enrol (ids @ [extra])) s) = EEPROM (run (enrol ids) s)"
proof (intro conjI allI impI)
  fix n :: nat assume n: "n < 145"
  let ?pre = "take n ids"
  have t: "take (Suc n) ids = ?pre @ [ids ! n]"
    using n assms(3) by (simp add: take_Suc_conv_app_nth)
  have d: "distinct ?pre" "\<forall>x\<in>set ?pre. enrollable x" "length ?pre \<le> 145"
    using assms(3-5) by (auto dest: in_set_takeD)
  have "ids ! n \<in> set ids" using n assms(3) by simp
  with assms(5) have u1: "enrollable (ids ! n)" by simp
  have u2: "ids ! n \<notin> set ?pre"
    using n assms(3,4) by (auto simp: in_set_conv_nth nth_eq_iff_index_eq)
  have u3: "length ?pre < 145" using n assms(3) by simp
  note u = u1 u2 u3
  from enrol_invariant [OF assms(1,2) d]
  have ih: "holds (EEPROM (run (enrol ?pre) s)) ?pre" "\<not> adminMode (run (enrol ?pre) s)"
    by simp_all
  from enrol_step(4) [OF ih d(3,2) u(1,2)] u(3)
  show "serial (run (enrol (take (Suc n) ids)) s) =
          serial (run (enrol ?pre) s) @
            [''Master detected. Entering admin mode.'', ''Not found in database. Card saved!'']"
    unfolding t run_enrol_snoc by simp
  from enrol_step(1) [OF ih d(3,2) u(1,2) u(3)]
  show "holds (EEPROM (run (enrol (take (Suc n) ids)) s)) (take (Suc n) ids)"
    unfolding t run_enrol_snoc .
next
  have d: "distinct ids" "\<forall>x\<in>set ids. enrollable x" "length ids \<le> 145"
    and u: "enrollable extra" "extra \<notin> set ids"
    using assms(3-5) by auto
  from enrol_invariant [OF assms(1,2) d]
  have ih: "holds (EEPROM (run (enrol ids) s)) ids" "\<not> adminMode (run (enrol ids) s)"
    by simp_all
  from enrol_step(4) [OF ih d(3,2) u] assms(3)
  show "serial (run (enrol (ids @ [extra])) s) =
          serial (run (enrol ids) s) @
            [''Master detected. Entering admin mode.'',
             ''Out of space! All entries currently in use.'']"
    unfolding run_enrol_snoc by simp
  from enrol_step(2) [OF ih d(3,2) u assms(3)]
  show "EEPROM (run (enrol (ids @ [extra])) s) = EEPROM (run (enrol ids) s)"
    unfolding run_enrol_snoc .
qed

theorem capacity_boundary_witness:
  "serial (run (enrol (sampleCards 145 @ [[145, 0, 0, 0, 0, 0, 0]])) (initial (filledEEPROM 0 255) (\<lambda>_. 0))) =
     serial (run (enrol (sampleCards 145)) (initial (filledEEPROM 0 255) (\<lambda>_. 0))) @
       [''Master detected. Entering admin mode.'', ''Out of space! All entries currently in use.''] \<and>
   holds (EEPROM (run (enrol (take 145 (sampleCards 145))) (initial (filledEEPROM 0 255) (\<lambda>_. 0))))
     (take 145 (sampleCards 145))"
proof -
  let ?s = "initial (filledEEPROM 0 255) (\<lambda>_. 0)"
  let ?ids = "sampleCards 145"
  let ?extra = "[145, 0, 0, 0, 0, 0, 0] :: u8 list"
  have all: "?ids @ [?extra] = sampleCards 146"
    using sampleCards_Suc [of 145] by simp
  have h1: "EEPROM_read (EEPROM ?s) 0 = 0"
    by (simp add: initial_def filledEEPROM_def EEPROM_read_def)
  have h2: "\<not> adminMode ?s" by (simp add: initial_def)
  have h3: "length ?ids = 145" by (simp add: sampleCards_def)
  have h4: "distinct (?ids @ [?extra])"
    unfolding all by (rule distinct_sampleCards) simp
  have h5: "\<forall>x\<in>set (?ids @ [?extra]). enrollable x"
    unfolding all by (blast intro: enrollable_sampleCards)
  note cb = capacity_boundary [OF h1 h2 h3 h4 h5]
  from cb have "holds (EEPROM (run (enrol (take (Suc 144) ?ids)) ?s)) (take (Suc 144) ?ids)"
    by (elim conjE allE [of _ 144]) simp
  with cb show ?thesis by simp
qed

text \<open>
  C9. When a card other than the master card is processed in admin mode, the card
  matches none of the entries \<open>1..count\<close>, none of these entries is nulled and the count
  is at least 145, the pass reports that the database is out of space and the EEPROM is
  exactly as before: the header, every record cell and every write count.
\<close>

theorem full_insert_changes_nothing:
  assumes "adminMode s"
    and "\<not> checkUIDsMatch (scannedUIDBuffer (readPassiveTargetID uid s)) masterUIDEntry"
    and "\<forall>j<unat (EEPROM_read (EEPROM s) 0).
           \<not> (\<forall>i<7. scannedUIDBuffer (readPassiveTargetID uid s) i = EEPROM_read (EEPROM s) (1 + 7 * j + i))"
    and "\<forall>j<unat (EEPROM_read (EEPROM s) 0).
           \<not> (\<forall>i<7. EEPROM_read (EEPROM s) (1 + 7 * j + i) = 255)"
    and "145 \<le> EEPROM_read (EEPROM s) 0"
  shows "EEPROM (loop (Some uid) s) = EEPROM s \<and>
         serial (loop (Some uid) s) = serial s @ [''Out of space! All entries currently in use.'']"
proof -
  let ?s = "readPassiveTargetID uid (setLEDMode (if adminMode s then 4 else 2) s)"
  have l: "loop (Some uid) s = cardDetected ?s"
    using assms(2) by (simp add: loop_Some)
  have "adminMode ?s" using assms(1) by simp
  from cardDetected_admin_no_match [OF this] assms(3-5)
  show ?thesis
    unfolding l by (simp add: EEPROM_read_def not_less [symmetric])
qed

theorem full_insert_changes_nothing_witness:
  "EEPROM (loop (Some [1, 2, 3, 4, 5, 6, 7])
      ((initial (filledEEPROM 145 0) (\<lambda>_. 0))\<lparr>adminMode := True\<rparr>)) = filledEEPROM 145 0 \<and>
   serial (loop (Some [1, 2, 3, 4, 5, 6, 7])
      ((initial (filledEEPROM 145 0) (\<lambda>_. 0))\<lparr>adminMode := True\<rparr>)) =
     [''Out of space! All entries currently in use.'']"
proof -
  let ?s = "(initial (filledEEPROM 145 0) (\<lambda>_. 0))\<lparr>adminMode := True\<rparr>"
  let ?uid = "[1, 2, 3, 4, 5, 6, 7] :: u8 list"
  have e: "EEPROM ?s = filledEEPROM 145 0" and ser: "serial ?s = []"
    by (simp_all add: initial_def)
  have h1: "adminMode ?s" by simp
  have h2: "\<not> checkUIDsMatch (scannedUIDBuffer (readPassiveTargetID ?uid ?s)) masterUIDEntry"
    by (simp add: checkUIDsMatch_unfold scannedUIDBuffer_readPassiveTargetID masterUIDEntry_def
        masterUID_def)
  have h3: "\<forall>j<unat (EEPROM_read (EEPROM ?s) 0).
           \<not> (\<forall>i<7. scannedUIDBuffer (readPassiveTargetID ?uid ?s) i = EEPROM_read (EEPROM ?s) (1 + 7 * j + i))"
    unfolding e
    by (auto simp: scannedUIDBuffer_readPassiveTargetID EEPROM_read_def filledEEPROM_def
        intro!: exI [of _ 0])
  have h4: "\<forall>j<unat (EEPROM_read (EEPROM ?s) 0).
           \<not> (\<forall>i<7. EEPROM_read (EEPROM ?s) (1 + 7 * j + i) = 255)"
    unfolding e by (auto simp: EEPROM_read_def filledEEPROM_def intro!: exI [of _ 0])
  have h5: "145 \<le> EEPROM_read (EEPROM ?s) 0"
    unfolding e by (simp add: EEPROM_read_def filledEEPROM_def)
  from full_insert_changes_nothing [OF h1 h2 h3 h4 h5] show ?thesis
    unfolding e ser by simp
qed

text \<open>
  C10. A pass of the loop that processes a card other than the master card in normal
  mode leaves the EEPROM as it was: no cell changes and no cell is physically written,
  whether the card is found (door unlocked) or not (access denied, database empty or
  not).
\<close>

theorem normal_card_writes_nothing:
  assumes "\<not> adminMode s"
    and "\<not> checkUIDsMatch (scannedUIDBuffer (readPassiveTargetID uid s)) masterUIDEntry"
  shows "EEPROM (loop (Some uid) s) = EEPROM s"
proof -
  let ?s = "readPassiveTargetID uid (setLEDMode (if adminMode s then 4 else 2) s)"
  have "loop (Some uid) s = cardDetected ?s"
    using assms(2) by (simp add: loop_Some)
  moreover have "\<not> adminMode ?s" using assms(1) by simp
  ultimately show ?thesis
    using cardDetected_normal [of ?s] by simp
qed

theorem normal_card_writes_nothing_witness:
  "EEPROM (loop (Some [1, 2, 3, 4, 5, 6, 7]) (initial (filledEEPROM 1 0) (\<lambda>_. 0))) = filledEEPROM 1 0"
  using normal_card_writes_nothing [of "initial (filledEEPROM 1 0) (\<lambda>_. 0)" "[1, 2, 3, 4, 5, 6, 7]"]
  by (simp add: checkUIDsMatch_unfold scannedUIDBuffer_readPassiveTargetID masterUIDEntry_def
      masterUID_def initial_def)

end
